theory Spec2Isabelle
  imports Main "HOL-Library.Word"
begin

section \<open>Strings and the Unicode character database\<close>

text \<open>
  A Python \<open>str\<close> is a sequence of Unicode code points. Code points are natural
  numbers; the program's ASCII literals are written with \<open>ascii\<close>.
\<close>

type_synonym codepoint = nat
type_synonym ustr = "codepoint list"

definition ascii :: "string \<Rightarrow> ustr" where
  "ascii s = map of_char s"

text \<open>
  \<open>stream.py\<close> calls \<open>unicodedata.normalize("NFKC", s)\<close> and
  \<open>unicodedata.category(ch)\<close>, and its regular expressions use the classes
  \<open>\d\<close>, \<open>\w\<close> (through \<open>\b\<close>) and \<open>\s\<close>; it calls \<open>json.loads\<close>, formats
  values with \<open>str()\<close> inside f-strings and puts \<open>str(e)\<close> of a caught exception
  into a note. What these library functions compute is not part of the program: it is a
  parameter of the model, so every theorem below that is stated for an arbitrary
  \<open>library\<close> holds for the real one. On ASCII the general category is the fixed
  table \<open>category_ascii\<close>.
\<close>

datatype json =
    JNull | JBool bool | JInt int | JFloat "64 word" | JStr ustr
  | JArr "json list" | JObj "(ustr \<times> json) list"

text \<open>
  A JSON value as \<open>json.loads\<close> builds it: \<open>None\<close>, \<open>bool\<close>, \<open>int\<close>, \<open>float\<close> (its 64
  bits), \<open>str\<close>, \<open>list\<close> and \<open>dict\<close> (the items in insertion order, keys distinct).
  The exceptions the program can meet say which operation failed on which value.
\<close>

datatype exn =
    JSONDecodeError ustr
  | TypeError_not_container json
  | TypeError_not_subscriptable json
  | TypeError_not_iterable json
  | TypeError_join_item json
  | AttributeError_get json
  | KeyError ustr

record library =
  normalize_NFKC :: "ustr \<Rightarrow> ustr"
  category_beyond_ascii :: "codepoint \<Rightarrow> string"
  json_loads :: "ustr \<Rightarrow> json option"
  str_value :: "json \<Rightarrow> ustr"
  str_exception :: "exn \<Rightarrow> ustr"

definition category_ascii :: "codepoint \<Rightarrow> string" where
  "category_ascii c =
     (if c \<le> 0x1F then ''Cc'' else if c = 0x20 then ''Zs''
      else if c \<le> 0x23 then ''Po'' else if c = 0x24 then ''Sc''
      else if c \<le> 0x27 then ''Po'' else if c = 0x28 then ''Ps''
      else if c = 0x29 then ''Pe'' else if c = 0x2A then ''Po''
      else if c = 0x2B then ''Sm'' else if c = 0x2C then ''Po''
      else if c = 0x2D then ''Pd'' else if c \<le> 0x2F then ''Po''
      else if c \<le> 0x39 then ''Nd'' else if c \<le> 0x3B then ''Po''
      else if c \<le> 0x3E then ''Sm'' else if c \<le> 0x40 then ''Po''
      else if c \<le> 0x5A then ''Lu'' else if c = 0x5B then ''Ps''
      else if c = 0x5C then ''Po'' else if c = 0x5D then ''Pe''
      else if c = 0x5E then ''Sk'' else if c = 0x5F then ''Pc''
      else if c = 0x60 then ''Sk'' else if c \<le> 0x7A then ''Ll''
      else if c = 0x7B then ''Ps'' else if c = 0x7C then ''Sm''
      else if c = 0x7D then ''Pe'' else if c = 0x7E then ''Sm''
      else ''Cc'')"

definition category :: "library \<Rightarrow> codepoint \<Rightarrow> string" where
  "category u c = (if c < 0x80 then category_ascii c else category_beyond_ascii u c)"

text \<open>\<open>\d\<close> on a \<open>str\<close> pattern: the characters of general category Nd.\<close>

definition is_decimal :: "library \<Rightarrow> codepoint \<Rightarrow> bool" where
  "is_decimal u c \<longleftrightarrow> category u c = ''Nd''"

text \<open>\<open>\w\<close> on a \<open>str\<close> pattern: \<open>str.isalnum\<close> or the underscore.\<close>

definition is_word :: "library \<Rightarrow> codepoint \<Rightarrow> bool" where
  "is_word u c \<longleftrightarrow>
     c = 0x5F \<or> category u c \<in> {''Lu'', ''Ll'', ''Lt'', ''Lm'', ''Lo'', ''Nd'', ''Nl'', ''No''}"

text \<open>\<open>str.isspace\<close>: what \<open>str.strip()\<close> removes and what \<open>\s\<close> matches.\<close>

definition is_space :: "codepoint \<Rightarrow> bool" where
  "is_space c \<longleftrightarrow>
     (0x09 \<le> c \<and> c \<le> 0x0D) \<or> (0x1C \<le> c \<and> c \<le> 0x20) \<or> c = 0x85 \<or> c = 0xA0
     \<or> c = 0x1680 \<or> (0x2000 \<le> c \<and> c \<le> 0x200A) \<or> c = 0x2028 \<or> c = 0x2029
     \<or> c = 0x202F \<or> c = 0x205F \<or> c = 0x3000"

definition is_latin_digit :: "codepoint \<Rightarrow> bool" where
  "is_latin_digit c \<longleftrightarrow> 0x30 \<le> c \<and> c \<le> 0x39"

subsection \<open>An excerpt of the library, for evaluating examples\<close>

text \<open>
  The excerpt covers Basic Latin, the Arabic letters U+0621 to U+064A with the tatweel,
  the Arabic-Indic, Extended Arabic-Indic and Devanagari digits, the seven directional
  marks, the en and em dash, and Hangul (conjoining jamo and precomposed syllables).
  On strings over these characters in which no Arabic letter is followed by a combining
  mark, NFKC changes nothing except that it composes Hangul jamo, which
  \<open>hangul_compose\<close> does by the arithmetic of the Unicode standard.
\<close>

fun hangul_compose :: "ustr \<Rightarrow> ustr" where
  "hangul_compose (a # b # cs) =
     (if 0x1100 \<le> a \<and> a \<le> 0x1112 \<and> 0x1161 \<le> b \<and> b \<le> 0x1175
      then hangul_compose ((0xAC00 + ((a - 0x1100) * 21 + (b - 0x1161)) * 28) # cs)
      else if 0xAC00 \<le> a \<and> a \<le> 0xD7A3 \<and> (a - 0xAC00) mod 28 = 0
              \<and> 0x11A8 \<le> b \<and> b \<le> 0x11C2
      then (a + (b - 0x11A7)) # hangul_compose cs
      else a # hangul_compose (b # cs))"
| "hangul_compose cs = cs"

definition category_excerpt :: "codepoint \<Rightarrow> string" where
  "category_excerpt c =
     (if 0x621 \<le> c \<and> c \<le> 0x63A then ''Lo''
      else if c = 0x640 then ''Lm''
      else if 0x641 \<le> c \<and> c \<le> 0x64A then ''Lo''
      else if 0x64B \<le> c \<and> c \<le> 0x65F then ''Mn''
      else if 0x660 \<le> c \<and> c \<le> 0x669 then ''Nd''
      else if 0x6F0 \<le> c \<and> c \<le> 0x6F9 then ''Nd''
      else if 0x966 \<le> c \<and> c \<le> 0x96F then ''Nd''
      else if 0x1100 \<le> c \<and> c \<le> 0x11FF then ''Lo''
      else if c = 0x200E \<or> c = 0x200F then ''Cf''
      else if c = 0x2013 \<or> c = 0x2014 then ''Pd''
      else if 0x202A \<le> c \<and> c \<le> 0x202E then ''Cf''
      else if 0xAC00 \<le> c \<and> c \<le> 0xD7A3 then ''Lo''
      else ''Cn'')"

text \<open>
  \<open>json.loads\<close> on the strings the examples below use: two documents, and two strings
  that are not JSON. \<open>str()\<close> of \<open>None\<close>, \<open>True\<close> and \<open>False\<close>; the examples format no
  other value that is not a string. \<open>str(e)\<close> for the two decoding errors.
\<close>

definition document_example :: json where
  "document_example =
     JObj [(ascii ''documentType'', JStr (ascii ''I'')),
           (ascii ''invoiceLines'',
              JArr [JObj [(ascii ''description'', JStr (ascii ''PO NUM: 7906''))],
                    JObj [(ascii ''quantity'', JInt 2)]])]"

definition document_example_text :: ustr where
  "document_example_text =
     ascii ''{'' @ [0x22] @ ascii ''documentType'' @ [0x22] @ ascii '': '' @ [0x22] @ ascii ''I'' @ [0x22]
     @ ascii '', '' @ [0x22] @ ascii ''invoiceLines'' @ [0x22] @ ascii '': [{'' @ [0x22]
     @ ascii ''description'' @ [0x22] @ ascii '': '' @ [0x22] @ ascii ''PO NUM: 7906'' @ [0x22]
     @ ascii ''}, {'' @ [0x22] @ ascii ''quantity'' @ [0x22] @ ascii '': 2}]}''"

definition json_loads_excerpt :: "ustr \<Rightarrow> json option" where
  "json_loads_excerpt s =
     (if s = ascii ''{}'' then Some (JObj [])
      else if s = document_example_text then Some document_example
      else if s = ascii ''not json'' then None
      else if s = ascii ''{PO NUM: 7906'' then None
      else None)"

definition str_value_excerpt :: "json \<Rightarrow> ustr" where
  "str_value_excerpt v =
     (case v of JNull \<Rightarrow> ascii ''None'' | JBool b \<Rightarrow> (if b then ascii ''True'' else ascii ''False'')
      | _ \<Rightarrow> [])"

definition str_exception_excerpt :: "exn \<Rightarrow> ustr" where
  "str_exception_excerpt e =
     (if e = JSONDecodeError (ascii ''not json'')
      then ascii ''Expecting value: line 1 column 1 (char 0)''
      else if e = JSONDecodeError (ascii ''{PO NUM: 7906'')
      then ascii ''Expecting property name enclosed in double quotes: line 1 column 2 (char 1)''
      else [])"

definition library_excerpt :: library where
  "library_excerpt =
     \<lparr> normalize_NFKC = hangul_compose, category_beyond_ascii = category_excerpt,
       json_loads = json_loads_excerpt, str_value = str_value_excerpt,
       str_exception = str_exception_excerpt \<rparr>"

section \<open>Text normalizer\<close>

text \<open>\<open>ARABIC_DIGITS = str.maketrans("...", "01234567890123456789")\<close>\<close>

definition ARABIC_DIGITS :: "(codepoint \<times> codepoint) list" where
  "ARABIC_DIGITS =
     zip [0x660, 0x661, 0x662, 0x663, 0x664, 0x665, 0x666, 0x667, 0x668, 0x669,
          0x6F0, 0x6F1, 0x6F2, 0x6F3, 0x6F4, 0x6F5, 0x6F6, 0x6F7, 0x6F8, 0x6F9]
         (ascii ''01234567890123456789'')"

definition BIDI_MARKS :: ustr where
  "BIDI_MARKS = [0x200E, 0x200F, 0x202A, 0x202B, 0x202C, 0x202D, 0x202E]"

text \<open>\<open>s.translate(table)\<close> for a table from characters to characters.\<close>

definition translate :: "(codepoint \<times> codepoint) list \<Rightarrow> ustr \<Rightarrow> ustr" where
  "translate table s = map (\<lambda>ch. case map_of table ch of Some d \<Rightarrow> d | None \<Rightarrow> ch) s"

text \<open>\<open>s.replace(old, new)\<close> where \<open>old\<close> is a single character.\<close>

definition replace :: "codepoint \<Rightarrow> ustr \<Rightarrow> ustr \<Rightarrow> ustr" where
  "replace old new s = concat (map (\<lambda>ch. if ch = old then new else [ch]) s)"

definition strip_combining :: "library \<Rightarrow> ustr \<Rightarrow> ustr" where
  "strip_combining u s = filter (\<lambda>ch. category u ch \<noteq> ''Mn'') s"

text \<open>\<open>re.sub(r"[ \t]+", " ", s)\<close>: every maximal run of spaces and tabs becomes one space.\<close>

definition is_blank :: "codepoint \<Rightarrow> bool" where
  "is_blank c \<longleftrightarrow> c = 0x20 \<or> c = 0x09"

fun collapse_run :: "bool \<Rightarrow> ustr \<Rightarrow> ustr" where
  "collapse_run in_run [] = []"
| "collapse_run in_run (c # cs) =
     (if is_blank c then (if in_run then collapse_run True cs else 0x20 # collapse_run True cs)
      else c # collapse_run False cs)"

definition collapse_blanks :: "ustr \<Rightarrow> ustr" where
  "collapse_blanks s = collapse_run False s"

text \<open>\<open>s.strip()\<close>\<close>

definition strip :: "ustr \<Rightarrow> ustr" where
  "strip s = rev (dropWhile is_space (rev (dropWhile is_space s)))"

definition fold_punctuation :: "ustr \<Rightarrow> ustr" where
  "fold_punctuation s =
     replace 0x5D [0x20] (replace 0x5B [0x20] (replace 0x29 [0x20] (replace 0x28 [0x20]
       (replace 0x640 [0x20] (replace 0x2014 [0x2D] (replace 0x2013 [0x2D]
         (replace 0xFF1A [0x3A] s)))))))"

definition norm_advanced :: "library \<Rightarrow> ustr \<Rightarrow> ustr" where
  "norm_advanced u s =
     (if s = [] then []
      else let s1 = normalize_NFKC u s;
               s2 = strip_combining u s1;
               s3 = replace 0xA0 [0x20] s2;
               s4 = translate ARABIC_DIGITS s3;
               s5 = fold (\<lambda>ch t. replace ch [] t) BIDI_MARKS s4;
               s6 = fold_punctuation s5
           in strip (collapse_blanks s6))"


section \<open>Regular expressions\<close>

text \<open>
  The patterns of \<open>stream.py\<close> are built from single-character atoms, \<open>\b\<close>, \<open>$\<close>,
  concatenation, alternation, optional groups, capture groups and repetitions of a
  single atom (\<open>\s*\<close>, \<open>\s+\<close>, \<open>\d{4,6}\<close>, \<open>.*?\<close>, \<open>[^)]*?\<close>).
\<close>

datatype set_item = IChr codepoint | IDigit | ISpace

datatype atom =
    Chr codepoint
  | Digit
  | Space
  | AnyChar
  | OneOf "set_item list"
  | NoneOf "set_item list"

datatype regex =
    Atom atom
  | WordBoundary
  | EndAnchor
  | Seq regex regex
  | Alt regex regex
  | Opt regex
  | Rep atom nat "nat option" bool
  | Group nat regex
  | Empty

text \<open>
  \<open>re.IGNORECASE\<close> compares characters after lowering them. Every letter in the
  patterns below is an ASCII letter other than \<open>i\<close>, \<open>k\<close> and \<open>s\<close>, or an Arabic letter,
  and for those the only characters that match are the letter and its ASCII capital.
\<close>

definition lower_ascii :: "codepoint \<Rightarrow> codepoint" where
  "lower_ascii c = (if 0x41 \<le> c \<and> c \<le> 0x5A then c + 0x20 else c)"

definition chr_eq :: "bool \<Rightarrow> codepoint \<Rightarrow> codepoint \<Rightarrow> bool" where
  "chr_eq ic a c = (if ic then lower_ascii a = lower_ascii c else a = c)"

fun item_matches :: "library \<Rightarrow> bool \<Rightarrow> set_item \<Rightarrow> codepoint \<Rightarrow> bool" where
  "item_matches L ic (IChr a) c = chr_eq ic a c"
| "item_matches L ic IDigit c = is_decimal L c"
| "item_matches L ic ISpace c = is_space c"

fun atom_matches :: "library \<Rightarrow> bool \<Rightarrow> atom \<Rightarrow> codepoint \<Rightarrow> bool" where
  "atom_matches L ic (Chr a) c = chr_eq ic a c"
| "atom_matches L ic Digit c = is_decimal L c"
| "atom_matches L ic Space c = is_space c"
| "atom_matches L ic AnyChar c = (c \<noteq> 0x0A)"
| "atom_matches L ic (OneOf items) c = list_ex (\<lambda>i. item_matches L ic i c) items"
| "atom_matches L ic (NoneOf items) c = (\<not> list_ex (\<lambda>i. item_matches L ic i c) items)"

text \<open>
  A position in the text is the character before it (if any) and the text after it; a
  matcher state adds the capture groups that are set.
\<close>

type_synonym groups = "nat \<rightharpoonup> ustr"
type_synonym mstate = "codepoint option \<times> ustr \<times> groups"

definition at_boundary :: "library \<Rightarrow> codepoint option \<Rightarrow> ustr \<Rightarrow> bool" where
  "at_boundary L p cs \<longleftrightarrow>
     (case p of None \<Rightarrow> False | Some c \<Rightarrow> is_word L c)
       \<noteq> (case cs of [] \<Rightarrow> False | c # _ \<Rightarrow> is_word L c)"

text \<open>\<open>$\<close> without \<open>re.MULTILINE\<close>: the end of the text, or just before a final newline.\<close>

definition at_end :: "ustr \<Rightarrow> bool" where
  "at_end cs \<longleftrightarrow> cs = [] \<or> cs = [0x0A]"

fun advance :: "nat \<Rightarrow> codepoint option \<Rightarrow> ustr \<Rightarrow> codepoint option \<times> ustr" where
  "advance 0 p cs = (p, cs)"
| "advance (Suc n) p [] = (p, [])"
| "advance (Suc n) p (c # cs) = advance n (Some c) cs"

text \<open>
  The numbers of characters a repetition of an atom may take, in the order the
  backtracking matcher tries them: greedy from the longest down, lazy from the shortest up.
\<close>

definition rep_counts :: "nat \<Rightarrow> nat option \<Rightarrow> bool \<Rightarrow> nat \<Rightarrow> nat list" where
  "rep_counts lo hi greedy avail =
     (let top = (case hi of None \<Rightarrow> avail | Some h \<Rightarrow> min h avail);
          counts = [lo ..< Suc top]
      in if greedy then rev counts else counts)"

text \<open>
  \<open>run\<close> lists the states in which a match of the expression from the given state can
  end, in the matcher's order of preference.
\<close>

fun run :: "library \<Rightarrow> bool \<Rightarrow> regex \<Rightarrow> mstate \<Rightarrow> mstate list" where
  "run L ic (Atom a) (p, cs, g) =
     (case cs of [] \<Rightarrow> []
      | c # cs' \<Rightarrow> if atom_matches L ic a c then [(Some c, cs', g)] else [])"
| "run L ic WordBoundary (p, cs, g) = (if at_boundary L p cs then [(p, cs, g)] else [])"
| "run L ic EndAnchor (p, cs, g) = (if at_end cs then [(p, cs, g)] else [])"
| "run L ic (Seq r1 r2) st = concat (map (run L ic r2) (run L ic r1 st))"
| "run L ic (Alt r1 r2) st = run L ic r1 st @ run L ic r2 st"
| "run L ic (Opt r) st = run L ic r st @ [st]"
| "run L ic (Rep a lo hi greedy) (p, cs, g) =
     map (\<lambda>n. case advance n p cs of (p', cs') \<Rightarrow> (p', cs', g))
       (rep_counts lo hi greedy (length (takeWhile (atom_matches L ic a) cs)))"
| "run L ic (Group n r) (p, cs, g) =
     map (\<lambda>(p', cs', g'). (p', cs', g'(n \<mapsto> take (length cs - length cs') cs)))
       (run L ic r (p, cs, g))"
| "run L ic Empty st = [st]"

text \<open>\<open>re.compile(r, flags)\<close>\<close>

record pattern =
  ignorecase :: bool
  regex :: regex

text \<open>
  \<open>pattern.search(text)\<close>: the first start position, from the left, at which the
  expression matches; the match object is the groups of the preferred match there.
\<close>

fun search_from :: "library \<Rightarrow> bool \<Rightarrow> regex \<Rightarrow> codepoint option \<Rightarrow> ustr \<Rightarrow> groups option" where
  "search_from L ic r p [] =
     (case run L ic r (p, [], Map.empty) of [] \<Rightarrow> None | (_, _, g) # _ \<Rightarrow> Some g)"
| "search_from L ic r p (c # cs) =
     (case run L ic r (p, c # cs, Map.empty) of
        [] \<Rightarrow> search_from L ic r (Some c) cs
      | (_, _, g) # _ \<Rightarrow> Some g)"

definition search :: "library \<Rightarrow> pattern \<Rightarrow> ustr \<Rightarrow> groups option" where
  "search L pat text = search_from L (ignorecase pat) (regex pat) None text"

subsection \<open>The patterns of the program\<close>

definition seq :: "regex list \<Rightarrow> regex" where
  "seq rs = foldr Seq rs Empty"

definition lit :: "ustr \<Rightarrow> regex" where
  "lit s = seq (map (\<lambda>c. Atom (Chr c)) s)"

definition star :: "atom \<Rightarrow> regex" where
  "star a = Rep a 0 None True"

definition plus :: "atom \<Rightarrow> regex" where
  "plus a = Rep a 1 None True"

definition lazy_star :: "atom \<Rightarrow> regex" where
  "lazy_star a = Rep a 0 None False"

definition digits :: "nat \<Rightarrow> nat \<Rightarrow> regex" where
  "digits lo hi = Rep Digit lo (Some hi) True"

definition RX_PO_PREFIX :: pattern where
  "RX_PO_PREFIX = \<lparr> ignorecase = True, regex =
     seq [WordBoundary, lit (ascii ''po''),
          Opt (Alt (seq [star Space, lit (ascii ''no''), Opt (Atom (Chr 0x2E))])
                   (lit (ascii '' reference''))),
          star Space, Opt (Atom (OneOf [IChr 0x3A, IChr 0x23, IChr 0x2F, IChr 0x2D])),
          star Space, Group 1 (digits 4 6),
          Opt (star (NoneOf [IDigit, ISpace])),
          Opt (seq [star Space, Atom (OneOf [IChr 0x2D, IChr 0x2F]), star Space,
                    Group 2 (digits 4 6)]),
          WordBoundary] \<rparr>"

definition RX_CODE_ANCHOR_LINE :: pattern where
  "RX_CODE_ANCHOR_LINE = \<lparr> ignorecase = True, regex =
     seq [Alt (seq [WordBoundary, lit (ascii ''code''), WordBoundary])
              (lit [0x643, 0x648, 0x62F]),
          star Space, Opt (Atom (OneOf [IChr 0x2F, IChr 0x3A, IChr 0x2D])),
          star Space,
          Opt (Alt (seq [lit (ascii ''no''), Opt (Atom (Chr 0x2E))]) (lit (ascii ''number''))),
          star Space, Group 1 (digits 4 6)] \<rparr>"

definition RX_ARABIC_D_PREFIX :: pattern where
  "RX_ARABIC_D_PREFIX = \<lparr> ignorecase = False, regex =
     seq [seq [WordBoundary, Atom (Chr 0x62F), Opt (Atom (Chr 0x2E)), star Space],
          Group 1 (digits 4 6)] \<rparr>"

definition RX_ARABIC_D_SUFFIX :: pattern where
  "RX_ARABIC_D_SUFFIX = \<lparr> ignorecase = False, regex =
     seq [Group 1 (digits 4 6), star Space, Atom (Chr 0x62F), Atom (Chr 0x2E)] \<rparr>"

definition RX_PO_SLASH :: pattern where
  "RX_PO_SLASH = \<lparr> ignorecase = True, regex =
     seq [WordBoundary, lit (ascii ''PO''), star Space, Atom (Chr 0x2F), star Space,
          Group 1 (digits 4 6), WordBoundary] \<rparr>"

definition RX_PO_FORWARD_SLASH :: pattern where
  "RX_PO_FORWARD_SLASH = \<lparr> ignorecase = True, regex =
     seq [WordBoundary, lit (ascii ''po''), star Space, Atom (Chr 0x2F), star Space,
          Group 1 (digits 4 6), WordBoundary] \<rparr>"

definition RX_PO_NUM_COLON :: pattern where
  "RX_PO_NUM_COLON = \<lparr> ignorecase = True, regex =
     seq [WordBoundary, lit (ascii ''PO''), star Space, lit (ascii ''NUM''), star Space,
          Atom (Chr 0x3A), star Space, Group 1 (digits 4 6), WordBoundary] \<rparr>"

definition RX_PARENTHESES_NUM :: pattern where
  "RX_PARENTHESES_NUM = \<lparr> ignorecase = False, regex =
     seq [Atom (Chr 0x28), lazy_star (NoneOf [IChr 0x29]), Group 1 (digits 4 6),
          lazy_star (NoneOf [IChr 0x29]), Atom (Chr 0x29)] \<rparr>"

definition RX_PARENTHESES_NUM_END :: pattern where
  "RX_PARENTHESES_NUM_END = \<lparr> ignorecase = False, regex =
     seq [Atom (Chr 0x28), lazy_star AnyChar, Group 1 (digits 4 6), star Space,
          Atom (Chr 0x29), EndAnchor] \<rparr>"

definition RX_TAXPAYER_NAME_NUM :: pattern where
  "RX_TAXPAYER_NAME_NUM = \<lparr> ignorecase = True, regex =
     seq [lit (ascii ''taxpayer''), star Space, lit (ascii ''name''), star Space,
          Opt (Atom (OneOf [IChr 0x3A, IChr 0x23])), star Space, Group 1 (digits 4 6)] \<rparr>"

definition date_tail :: "regex list" where
  "date_tail = [digits 1 2, Atom (Chr 0x2F), digits 1 2, Atom (Chr 0x2F), digits 4 4,
                WordBoundary]"

definition RX_NUM_DATE :: pattern where
  "RX_NUM_DATE = \<lparr> ignorecase = False, regex =
     seq ([WordBoundary, Group 1 (digits 4 6), plus Space] @ date_tail) \<rparr>"

definition RX_NUM_CONCAT_DATE :: pattern where
  "RX_NUM_CONCAT_DATE = \<lparr> ignorecase = False, regex =
     seq ([WordBoundary, Group 1 (digits 6 6)] @ date_tail) \<rparr>"

definition RX_STANDALONE_6DIGIT :: pattern where
  "RX_STANDALONE_6DIGIT = \<lparr> ignorecase = False, regex =
     seq [WordBoundary, Group 1 (digits 6 6), star Space, EndAnchor] \<rparr>"

definition RX_ARABIC_MEALS_NUM :: pattern where
  "RX_ARABIC_MEALS_NUM = \<lparr> ignorecase = True, regex =
     seq [lit [0x648, 0x62C, 0x628, 0x627, 0x62A], star Space,
          lit [0x63A, 0x630, 0x627, 0x626, 0x64A], Atom (OneOf [IChr 0x647, IChr 0x629]),
          plus Space,
          Opt (seq [Atom (Chr 0x62F), Atom (Chr 0x2E), star Space]),
          Group 1 (digits 4 6)] \<rparr>"

section \<open>PO extractor\<close>

text \<open>
  The result of an extraction is the tuple \<open>(po_number, source, note)\<close>. The number is
  \<open>match.group(1)\<close>, which is \<open>None\<close> when group 1 took no part in the match.
\<close>

type_synonym extraction = "ustr option \<times> ustr \<times> ustr"

definition patterns :: "(ustr \<times> pattern) list" where
  "patterns =
     [(ascii ''arabic-meals'', RX_ARABIC_MEALS_NUM),
      (ascii ''po-num-colon'', RX_PO_NUM_COLON),
      (ascii ''po-forward-slash'', RX_PO_FORWARD_SLASH),
      (ascii ''num-concat-date'', RX_NUM_CONCAT_DATE),
      (ascii ''num-date'', RX_NUM_DATE),
      (ascii ''standalone-6digit'', RX_STANDALONE_6DIGIT),
      (ascii ''po-slash'', RX_PO_SLASH),
      (ascii ''taxpayer-name-num'', RX_TAXPAYER_NAME_NUM),
      (ascii ''parentheses-end'', RX_PARENTHESES_NUM_END),
      (ascii ''parentheses'', RX_PARENTHESES_NUM),
      (ascii ''po-prefix'', RX_PO_PREFIX),
      (ascii ''code-anchor'', RX_CODE_ANCHOR_LINE),
      (ascii ''arabic-d-prefix'', RX_ARABIC_D_PREFIX),
      (ascii ''arabic-d-suffix'', RX_ARABIC_D_SUFFIX)]"

definition no_po_found :: extraction where
  "no_po_found = (Some [], [], ascii ''no PO found'')"

definition source_label :: "ustr \<Rightarrow> ustr" where
  "source_label pattern_name = ascii ''json ('' @ pattern_name @ ascii '')''"

text \<open>The loop \<open>for pattern_name, pattern in patterns\<close>, which returns at the first match.\<close>

fun first_match :: "library \<Rightarrow> (ustr \<times> pattern) list \<Rightarrow> ustr \<Rightarrow> extraction" where
  "first_match L [] normalized_text = no_po_found"
| "first_match L ((pattern_name, pat) # rest) normalized_text =
     (case search L pat normalized_text of
        Some m \<Rightarrow> (m 1, source_label pattern_name, [])
      | None \<Rightarrow> first_match L rest normalized_text)"

definition advanced_po_extraction_v48 :: "library \<Rightarrow> ustr \<Rightarrow> extraction" where
  "advanced_po_extraction_v48 L text =
     (if text = [] then no_po_found
      else first_match L patterns (norm_advanced L text))"

section \<open>Field collector\<close>

subsection \<open>The operations of Python on JSON values\<close>

definition is_substring :: "ustr \<Rightarrow> ustr \<Rightarrow> bool" where
  "is_substring k s \<longleftrightarrow> list_ex (\<lambda>i. take (length k) (drop i s) = k) [0 ..< Suc (length s)]"

text \<open>\<open>key in v\<close> for a string \<open>key\<close>\<close>

fun py_contains :: "json \<Rightarrow> ustr \<Rightarrow> exn + bool" where
  "py_contains (JObj kvs) k = Inr (map_of kvs k \<noteq> None)"
| "py_contains (JArr vs) k = Inr (JStr k \<in> set vs)"
| "py_contains (JStr s) k = Inr (is_substring k s)"
| "py_contains v k = Inl (TypeError_not_container v)"

text \<open>\<open>v[key]\<close> for a string \<open>key\<close>\<close>

fun py_getitem :: "json \<Rightarrow> ustr \<Rightarrow> exn + json" where
  "py_getitem (JObj kvs) k = (case map_of kvs k of Some v \<Rightarrow> Inr v | None \<Rightarrow> Inl (KeyError k))"
| "py_getitem v k = Inl (TypeError_not_subscriptable v)"

text \<open>\<open>for x in v\<close>\<close>

fun py_iter :: "json \<Rightarrow> exn + json list" where
  "py_iter (JArr vs) = Inr vs"
| "py_iter (JObj kvs) = Inr (map (\<lambda>(k, v). JStr k) kvs)"
| "py_iter (JStr s) = Inr (map (\<lambda>c. JStr [c]) s)"
| "py_iter v = Inl (TypeError_not_iterable v)"

text \<open>\<open>v.get(key, "")\<close>\<close>

fun py_get :: "json \<Rightarrow> ustr \<Rightarrow> exn + json" where
  "py_get (JObj kvs) k = Inr (case map_of kvs k of Some v \<Rightarrow> v | None \<Rightarrow> JStr [])"
| "py_get v k = Inl (AttributeError_get v)"

fun join :: "ustr \<Rightarrow> ustr list \<Rightarrow> ustr" where
  "join sep [] = []"
| "join sep [x] = x"
| "join sep (x # y # ys) = x @ sep @ join sep (y # ys)"

fun the_str :: "json \<Rightarrow> ustr option" where
  "the_str (JStr s) = Some s"
| "the_str v = None"

text \<open>\<open>sep.join(items)\<close> raises at the first item that is not a string.\<close>

definition py_join :: "ustr \<Rightarrow> json list \<Rightarrow> exn + ustr" where
  "py_join sep items =
     (case find (\<lambda>v. the_str v = None) items of
        Some v \<Rightarrow> Inl (TypeError_join_item v)
      | None \<Rightarrow> Inr (join sep (map (\<lambda>v. the (the_str v)) items)))"

text \<open>\<open>f"{v}"\<close>\<close>

definition format_value :: "library \<Rightarrow> json \<Rightarrow> ustr" where
  "format_value L v = (case v of JStr s \<Rightarrow> s | _ \<Rightarrow> str_value L v)"

definition bind_exn :: "exn + 'a \<Rightarrow> ('a \<Rightarrow> exn + 'b) \<Rightarrow> exn + 'b" where
  "bind_exn m f = (case m of Inl e \<Rightarrow> Inl e | Inr v \<Rightarrow> f v)"

subsection \<open>Text assembly and extraction\<close>

text \<open>
  An invoice record is the \<open>dict\<close> \<open>json_data\<close>, of which the program only looks keys up.
\<close>

type_synonym invoice_record = "ustr \<rightharpoonup> json"

text \<open>\<open>json.loads(d) if isinstance(d, str) else d\<close>\<close>

definition load_document :: "library \<Rightarrow> json \<Rightarrow> exn + json" where
  "load_document L d =
     (case d of
        JStr s \<Rightarrow> (case json_loads L s of None \<Rightarrow> Inl (JSONDecodeError s) | Some v \<Rightarrow> Inr v)
      | _ \<Rightarrow> Inr d)"

text \<open>
  \<open>for line in lines: if 'description' in line: parts.append(line['description'])\<close>
\<close>

fun collect_descriptions :: "json list \<Rightarrow> exn + json list" where
  "collect_descriptions [] = Inr []"
| "collect_descriptions (line # rest) =
     bind_exn (py_contains line (ascii ''description'')) (\<lambda>present.
       if present
       then bind_exn (py_getitem line (ascii ''description'')) (\<lambda>v.
              bind_exn (collect_descriptions rest) (\<lambda>vs. Inr (v # vs)))
       else collect_descriptions rest)"

definition invoice_line_descriptions :: "json \<Rightarrow> exn + json list" where
  "invoice_line_descriptions doc =
     bind_exn (py_contains doc (ascii ''invoiceLines'')) (\<lambda>present.
       if present
       then bind_exn (py_getitem doc (ascii ''invoiceLines'')) (\<lambda>lines.
              bind_exn (py_iter lines) collect_descriptions)
       else Inr [])"

definition present :: "invoice_record \<Rightarrow> ustr \<Rightarrow> json list" where
  "present json_data k = (case json_data k of None \<Rightarrow> [] | Some v \<Rightarrow> [v])"

text \<open>
  The body of the \<open>try\<close> in \<open>extract_po_from_json\<close> up to \<open>full_text\<close>: the text that is
  handed to the extractor, or the exception that ends the \<open>try\<close>.
\<close>

definition full_text :: "library \<Rightarrow> invoice_record \<Rightarrow> exn + ustr" where
  "full_text L json_data =
     bind_exn
       (case json_data (ascii ''document'') of
          None \<Rightarrow> Inr []
        | Some d \<Rightarrow> bind_exn (load_document L d) invoice_line_descriptions)
       (\<lambda>descriptions.
          py_join [0x0A]
            (descriptions
             @ present json_data (ascii ''issuerName'')
             @ present json_data (ascii ''receiverName'')
             @ map (\<lambda>v. JStr (ascii ''Internal ID: '' @ format_value L v))
                 (present json_data (ascii ''internalId''))))"

definition extract_po_from_json :: "library \<Rightarrow> invoice_record \<Rightarrow> extraction" where
  "extract_po_from_json L json_data =
     (case full_text L json_data of
        Inr text \<Rightarrow> advanced_po_extraction_v48 L text
      | Inl e \<Rightarrow> (Some [], [], ascii ''extraction error: '' @ str_exception L e))"

subsection \<open>Field extraction\<close>

type_synonym fields = "ustr \<rightharpoonup> json"

definition get_or_empty :: "invoice_record \<Rightarrow> ustr \<Rightarrow> json" where
  "get_or_empty json_data k = (case json_data k of Some v \<Rightarrow> v | None \<Rightarrow> JStr [])"

definition basic_fields :: "invoice_record \<Rightarrow> fields" where
  "basic_fields json_data =
     [ascii ''filename'' \<mapsto> JStr (ascii ''JSON_DATA''),
      ascii ''STATUS'' \<mapsto> get_or_empty json_data (ascii ''status''),
      ascii ''uuid'' \<mapsto> get_or_empty json_data (ascii ''uuid''),
      ascii ''internalId'' \<mapsto> get_or_empty json_data (ascii ''internalId''),
      ascii ''typeName'' \<mapsto> get_or_empty json_data (ascii ''typeName''),
      ascii ''issuerId'' \<mapsto> get_or_empty json_data (ascii ''issuerId''),
      ascii ''issuerName'' \<mapsto> get_or_empty json_data (ascii ''issuerName''),
      ascii ''receiverId'' \<mapsto> get_or_empty json_data (ascii ''receiverId''),
      ascii ''receiverName'' \<mapsto> get_or_empty json_data (ascii ''receiverName''),
      ascii ''dateTimeIssued'' \<mapsto> get_or_empty json_data (ascii ''dateTimeIssued''),
      ascii ''dateTimeReceived'' \<mapsto> get_or_empty json_data (ascii ''dateTimeReceived''),
      ascii ''serviceDeliveryDate'' \<mapsto> get_or_empty json_data (ascii ''serviceDeliveryDate''),
      ascii ''totalSales'' \<mapsto> get_or_empty json_data (ascii ''totalSales''),
      ascii ''totalDiscount'' \<mapsto> get_or_empty json_data (ascii ''totalDiscount''),
      ascii ''netAmount'' \<mapsto> get_or_empty json_data (ascii ''netAmount''),
      ascii ''total'' \<mapsto> get_or_empty json_data (ascii ''total'')]"

text \<open>
  \<open>if k in doc and 'address' in doc[k]\<close>, then the four parts of the address joined by
  spaces; \<open>None\<close> when the condition is false.
\<close>

definition address_line :: "library \<Rightarrow> json \<Rightarrow> ustr \<Rightarrow> exn + ustr option" where
  "address_line L doc k =
     bind_exn (py_contains doc k) (\<lambda>has_party.
       if \<not> has_party then Inr None
       else bind_exn (py_getitem doc k) (\<lambda>party.
         bind_exn (py_contains party (ascii ''address'')) (\<lambda>has_address.
           if \<not> has_address then Inr None
           else bind_exn (py_getitem party (ascii ''address'')) (\<lambda>addr.
             bind_exn (py_get addr (ascii ''street'')) (\<lambda>street.
             bind_exn (py_get addr (ascii ''buildingNumber'')) (\<lambda>building.
             bind_exn (py_get addr (ascii ''regionCity'')) (\<lambda>city.
             bind_exn (py_get addr (ascii ''governate'')) (\<lambda>governate.
               Inr (Some (format_value L street @ [0x20] @ format_value L building @ [0x20]
                          @ format_value L city @ [0x20] @ format_value L governate))))))))))"

text \<open>
  The inner \<open>try\<close> of \<open>parse_json_fields\<close> once \<open>doc\<close> is known. It stores into
  \<open>fields\<close> as it goes; an exception ends it and keeps what was stored before.
\<close>

definition or_keep :: "exn + 'a \<Rightarrow> fields \<Rightarrow> ('a \<Rightarrow> fields) \<Rightarrow> fields" where
  "or_keep m stored k = (case m of Inl e \<Rightarrow> stored | Inr v \<Rightarrow> k v)"

definition document_fields :: "library \<Rightarrow> json \<Rightarrow> fields \<Rightarrow> fields" where
  "document_fields L doc f0 =
     or_keep (py_get doc (ascii ''documentType'')) f0 (\<lambda>v1.
     let f1 = f0(ascii ''documentType'' \<mapsto> v1) in
     or_keep (py_get doc (ascii ''documentTypeVersion'')) f1 (\<lambda>v2.
     let f2 = f1(ascii ''documentTypeVersion'' \<mapsto> v2) in
     or_keep (py_get doc (ascii ''taxpayerActivityCode'')) f2 (\<lambda>v3.
     let f3 = f2(ascii ''taxpayerActivityCode'' \<mapsto> v3) in
     or_keep (bind_exn (invoice_line_descriptions doc) (py_join (ascii ''; ''))) f3 (\<lambda>d.
     let f4 = f3(ascii ''descriptions'' \<mapsto> JStr d) in
     or_keep (address_line L doc (ascii ''issuer'')) f4 (\<lambda>a.
     let f5 = (case a of None \<Rightarrow> f4 | Some t \<Rightarrow> f4(ascii ''issuer_address'' \<mapsto> JStr t)) in
     or_keep (address_line L doc (ascii ''receiver'')) f5 (\<lambda>b.
     (case b of None \<Rightarrow> f5 | Some t \<Rightarrow> f5(ascii ''receiver_address'' \<mapsto> JStr t))))))))"

text \<open>
  \<open>parse_json_fields\<close>. Its outer \<open>try\<close> has nothing to catch: looking a key up in
  \<open>json_data\<close> does not raise, the inner \<open>try\<close> catches every exception of the document
  block, and \<open>extract_po_from_json\<close> catches its own.
\<close>

definition parse_json_fields :: "library \<Rightarrow> invoice_record \<Rightarrow> fields" where
  "parse_json_fields L json_data =
     (let basic = basic_fields json_data;
          collected = (case json_data (ascii ''document'') of
                         None \<Rightarrow> basic
                       | Some d \<Rightarrow> (case load_document L d of
                                      Inl e \<Rightarrow> basic
                                    | Inr doc \<Rightarrow> document_fields L doc basic))
      in case extract_po_from_json L json_data of
           (po_number, po_source, po_note) \<Rightarrow>
             collected(ascii ''PO number'' \<mapsto> (case po_number of Some d \<Rightarrow> JStr d | None \<Rightarrow> JNull),
                    ascii ''PO source'' \<mapsto> JStr po_source,
                    ascii ''PO note'' \<mapsto> JStr po_note))"

section \<open>Properties the statements below use\<close>

definition is_arabic_indic_digit :: "codepoint \<Rightarrow> bool" where
  "is_arabic_indic_digit c \<longleftrightarrow> (0x660 \<le> c \<and> c \<le> 0x669) \<or> (0x6F0 \<le> c \<and> c \<le> 0x6F9)"

text \<open>No two neighbouring characters are both a space or a tab.\<close>

fun no_blank_runs :: "ustr \<Rightarrow> bool" where
  "no_blank_runs (a # b # cs) \<longleftrightarrow> \<not> (is_blank a \<and> is_blank b) \<and> no_blank_runs (b # cs)"
| "no_blank_runs cs \<longleftrightarrow> True"

text \<open>
  The characters that the steps of \<open>norm_advanced\<close> remove or replace do not occur in
  its output.
\<close>

definition normal_char :: "library \<Rightarrow> codepoint \<Rightarrow> bool" where
  "normal_char L c \<longleftrightarrow>
     category L c \<noteq> ''Mn'' \<and> c \<noteq> 0xA0 \<and> \<not> is_arabic_indic_digit c \<and> c \<notin> set BIDI_MARKS
     \<and> c \<notin> {0xFF1A, 0x2013, 0x2014, 0x640, 0x28, 0x29, 0x5B, 0x5D} \<and> c \<noteq> 0x09"

text \<open>Every decimal digit of the text is one of \<open>0\<close> to \<open>9\<close>.\<close>

definition only_latin_digits :: "library \<Rightarrow> ustr \<Rightarrow> bool" where
  "only_latin_digits L t \<longleftrightarrow> list_all (\<lambda>c. is_decimal L c \<longrightarrow> is_latin_digit c) t"

text \<open>A captured number: four to six characters that \<open>\d\<close> matches.\<close>

definition is_po_capture :: "library \<Rightarrow> ustr \<Rightarrow> bool" where
  "is_po_capture L d \<longleftrightarrow> 4 \<le> length d \<and> length d \<le> 6 \<and> list_all (is_decimal L) d"

text \<open>
  The numbers of the capture groups of an expression, and a check on its syntax that
  suffices for group 1 to hold a captured number after every match: the expression
  ends with, or is followed only by group-1-free expressions after, a group 1 around
  \<open>\d{lo,hi}\<close> with \<open>4 \<le> lo\<close> and \<open>hi \<le> 6\<close>.
\<close>

fun group_numbers :: "regex \<Rightarrow> nat list" where
  "group_numbers (Seq r1 r2) = group_numbers r1 @ group_numbers r2"
| "group_numbers (Alt r1 r2) = group_numbers r1 @ group_numbers r2"
| "group_numbers (Opt r) = group_numbers r"
| "group_numbers (Group n r) = n # group_numbers r"
| "group_numbers r = []"

fun captures_po :: "regex \<Rightarrow> bool" where
  "captures_po (Group n (Rep Digit lo (Some hi) greedy)) \<longleftrightarrow> n = 1 \<and> 4 \<le> lo \<and> hi \<le> 6"
| "captures_po (Seq r1 r2) \<longleftrightarrow>
     captures_po r2 \<or> (captures_po r1 \<and> 1 \<notin> set (group_numbers r2))"
| "captures_po (Alt r1 r2) \<longleftrightarrow> captures_po r1 \<and> captures_po r2"
| "captures_po r \<longleftrightarrow> False"

text \<open>
  What the statements about the field collector use: the output keys that are copied
  from the record with their source keys; an invoice line that is an object whose
  description, if any, is a string, and the description it contributes; a field of the
  record that is a string or absent, and the part it contributes.
\<close>

definition top_level_fields :: "(string \<times> string) list" where
  "top_level_fields =
     [(''STATUS'', ''status''), (''uuid'', ''uuid''), (''internalId'', ''internalId''),
      (''typeName'', ''typeName''), (''issuerId'', ''issuerId''), (''issuerName'', ''issuerName''),
      (''receiverId'', ''receiverId''), (''receiverName'', ''receiverName''),
      (''dateTimeIssued'', ''dateTimeIssued''), (''dateTimeReceived'', ''dateTimeReceived''),
      (''serviceDeliveryDate'', ''serviceDeliveryDate''), (''totalSales'', ''totalSales''),
      (''totalDiscount'', ''totalDiscount''), (''netAmount'', ''netAmount''), (''total'', ''total'')]"

definition well_typed_line :: "json \<Rightarrow> bool" where
  "well_typed_line line =
     (case line of
        JObj kvs \<Rightarrow> (case map_of kvs (ascii ''description'') of
                       None \<Rightarrow> True | Some v \<Rightarrow> the_str v \<noteq> None)
      | _ \<Rightarrow> False)"

definition line_description :: "json \<Rightarrow> ustr list" where
  "line_description line =
     (case line of
        JObj kvs \<Rightarrow> (case map_of kvs (ascii ''description'') of
                       Some (JStr t) \<Rightarrow> [t] | _ \<Rightarrow> [])
      | _ \<Rightarrow> [])"

definition string_or_absent :: "invoice_record \<Rightarrow> ustr \<Rightarrow> bool" where
  "string_or_absent json_data k =
     (case json_data k of None \<Rightarrow> True | Some v \<Rightarrow> the_str v \<noteq> None)"

definition string_field :: "invoice_record \<Rightarrow> ustr \<Rightarrow> ustr list" where
  "string_field json_data k = (case json_data k of Some (JStr t) \<Rightarrow> [t] | _ \<Rightarrow> [])"

section \<open>Lemmas\<close>

lemma set_replace:
  "c \<in> set (replace old new s) \<longleftrightarrow> (c \<in> set s \<and> c \<noteq> old) \<or> (old \<in> set s \<and> c \<in> set new)"
  by (auto simp: replace_def split: if_splits)

lemma replace_absent: "old \<notin> set s \<Longrightarrow> replace old new s = s"
  by (induction s) (auto simp: replace_def)

lemma ARABIC_DIGITS_Some: "map_of ARABIC_DIGITS ch = Some d \<Longrightarrow> is_latin_digit d"
  by (auto simp: ARABIC_DIGITS_def ascii_def is_latin_digit_def split: if_splits)

lemma ARABIC_DIGITS_None: "map_of ARABIC_DIGITS ch = None \<longleftrightarrow> \<not> is_arabic_indic_digit ch"
  unfolding is_arabic_indic_digit_def
  by (auto simp: ARABIC_DIGITS_def ascii_def split: if_splits; presburger)

lemma ARABIC_DIGITS_dom: "map_of ARABIC_DIGITS ch = Some d \<Longrightarrow> is_arabic_indic_digit ch"
  using ARABIC_DIGITS_None [of ch] by auto

lemma set_translate:
  "c \<in> set (translate ARABIC_DIGITS s) \<Longrightarrow> (c \<in> set s \<and> \<not> is_arabic_indic_digit c) \<or> is_latin_digit c"
  by (auto simp: translate_def ARABIC_DIGITS_None ARABIC_DIGITS_Some split: option.splits
      dest: ARABIC_DIGITS_dom)

lemma translate_absent:
  "\<forall>c\<in>set s. \<not> is_arabic_indic_digit c \<Longrightarrow> translate ARABIC_DIGITS s = s"
  by (induction s) (auto simp: translate_def split: option.splits dest: ARABIC_DIGITS_dom)

lemma set_collapse_run:
  "c \<in> set (collapse_run b s) \<Longrightarrow> (c \<in> set s \<and> \<not> is_blank c) \<or> c = 0x20"
  by (induction s arbitrary: b) (auto split: if_splits)

lemma collapse_run_True_hd:
  "collapse_run True s = [] \<or> \<not> is_blank (hd (collapse_run True s))"
  by (induction s) auto

lemma no_blank_runs_Cons:
  "no_blank_runs (x # t) \<longleftrightarrow> (t = [] \<or> \<not> (is_blank x \<and> is_blank (hd t))) \<and> no_blank_runs t"
  by (cases t) auto

lemma no_blank_runs_collapse_run: "no_blank_runs (collapse_run b s)"
proof (induction s arbitrary: b)
  case Nil
  show ?case by simp
next
  case (Cons c cs)
  show ?case
    using Cons [of True] Cons [of False] collapse_run_True_hd [of cs]
    by (auto simp: no_blank_runs_Cons)
qed

lemma collapse_run_id:
  "\<forall>c\<in>set t. c \<noteq> 0x09 \<Longrightarrow> no_blank_runs t \<Longrightarrow> (b \<longrightarrow> t = [] \<or> \<not> is_blank (hd t))
     \<Longrightarrow> collapse_run b t = t"
proof (induction t arbitrary: b)
  case Nil
  show ?case by simp
next
  case (Cons c cs)
  then show ?case
    by (auto simp: no_blank_runs_Cons is_blank_def)
qed

lemma no_blank_runs_append:
  "no_blank_runs (xs @ ys) \<Longrightarrow> no_blank_runs xs \<and> no_blank_runs ys"
  by (induction xs rule: no_blank_runs.induct) (auto simp: no_blank_runs_Cons)

lemma strip_infix: "\<exists>a b. s = a @ strip s @ b"
proof -
  let ?d = "dropWhile is_space s"
  have "s = takeWhile is_space s @ ?d" by simp
  moreover have "?d = rev (dropWhile is_space (rev ?d)) @ rev (takeWhile is_space (rev ?d))"
    by (metis rev_append rev_rev_ident takeWhile_dropWhile_id)
  ultimately have "s = takeWhile is_space s @ strip s @ rev (takeWhile is_space (rev ?d))"
    by (simp add: strip_def)
  then show ?thesis by blast
qed

lemma set_strip: "set (strip s) \<subseteq> set s"
  using strip_infix [of s] by (metis Un_upper1 Un_upper2 set_append subset_trans)

lemma no_blank_runs_strip: "no_blank_runs s \<Longrightarrow> no_blank_runs (strip s)"
  using strip_infix [of s] by (metis no_blank_runs_append)

lemma strip_ends: "strip s = [] \<or> (\<not> is_space (hd (strip s)) \<and> \<not> is_space (last (strip s)))"
proof (cases "strip s = []")
  case True
  then show ?thesis by simp
next
  case False
  let ?d = "dropWhile is_space s"
  let ?e = "dropWhile is_space (rev ?d)"
  have e: "?e \<noteq> []" using False by (simp add: strip_def)
  then have l: "\<not> is_space (hd ?e)" by (rule hd_dropWhile)
  have d: "?d \<noteq> []"
  proof
    assume "?d = []"
    then have "?e = []" by (simp only: rev.simps dropWhile.simps)
    with e show False by blast
  qed
  then have h: "\<not> is_space (hd ?d)" by (rule hd_dropWhile)
  have "rev ?d = takeWhile is_space (rev ?d) @ ?e" by simp
  then have "?d = rev ?e @ rev (takeWhile is_space (rev ?d))"
    by (metis rev_append rev_rev_ident)
  then have "hd ?d = hd (rev ?e)" using e by (metis hd_append2 rev_is_Nil_conv)
  then have "\<not> is_space (hd (strip s))" using h by (simp add: strip_def)
  moreover have "last (strip s) = hd ?e" using e by (simp add: strip_def last_rev)
  ultimately show ?thesis using l by simp
qed

lemma strip_id: "s = [] \<or> (\<not> is_space (hd s) \<and> \<not> is_space (last s)) \<Longrightarrow> strip s = s"
proof (cases "s = []")
  case True
  then show ?thesis by (simp add: strip_def)
next
  case False
  assume "s = [] \<or> (\<not> is_space (hd s) \<and> \<not> is_space (last s))"
  then have h: "\<not> is_space (hd s)" and l: "\<not> is_space (last s)" using False by auto
  have "dropWhile is_space s = s" using h False by (cases s) auto
  moreover have "dropWhile is_space (rev s) = rev s" using l False
    by (cases "rev s") (auto simp: last_rev [symmetric] hd_rev)
  ultimately show ?thesis by (simp add: strip_def)
qed


lemma set_fold_punctuation:
  "c \<in> set (fold_punctuation t) \<Longrightarrow>
     (c \<in> set t \<and> c \<notin> {0xFF1A, 0x2013, 0x2014, 0x640, 0x28, 0x29, 0x5B, 0x5D})
     \<or> c \<in> {0x20, 0x2D, 0x3A}"
  by (auto simp: fold_punctuation_def set_replace)

lemma set_remove_bidi:
  "c \<in> set (fold (\<lambda>ch t. replace ch [] t) BIDI_MARKS t) \<longleftrightarrow> c \<in> set t \<and> c \<notin> set BIDI_MARKS"
  by (auto simp: BIDI_MARKS_def set_replace)

lemma category_of_ascii:
  "category L 0x20 = ''Zs''" "category L 0x2D = ''Pd''" "category L 0x3A = ''Po''"
  "is_latin_digit c \<Longrightarrow> category L c = ''Nd''"
  by (auto simp: category_def category_ascii_def is_latin_digit_def)

lemma latin_digit_facts:
  "is_latin_digit c \<Longrightarrow> \<not> is_arabic_indic_digit c \<and> c \<notin> set BIDI_MARKS \<and> c \<noteq> 0xA0 \<and> c \<noteq> 0x09
     \<and> c \<notin> {0xFF1A, 0x2013, 0x2014, 0x640, 0x28, 0x29, 0x5B, 0x5D}"
  by (auto simp: is_latin_digit_def is_arabic_indic_digit_def BIDI_MARKS_def)

lemma normal_char_ascii:
  "normal_char L 0x20" "normal_char L 0x2D" "normal_char L 0x3A"
  "is_latin_digit c \<Longrightarrow> normal_char L c"
  using latin_digit_facts [of c]
  by (auto simp: normal_char_def category_of_ascii is_arabic_indic_digit_def BIDI_MARKS_def)

lemma norm_advanced_chars:
  assumes "c \<in> set (norm_advanced L s)"
  shows "normal_char L c"
proof -
  define s2 where "s2 = strip_combining L (normalize_NFKC L s)"
  define s3 where "s3 = replace 0xA0 [0x20] s2"
  define s4 where "s4 = translate ARABIC_DIGITS s3"
  define s5 where "s5 = fold (\<lambda>ch t. replace ch [] t) BIDI_MARKS s4"
  define s6 where "s6 = fold_punctuation s5"
  have n: "norm_advanced L s = strip (collapse_blanks s6)" and "s \<noteq> []"
    using assms by (auto simp: norm_advanced_def Let_def s2_def s3_def s4_def s5_def s6_def split: if_splits)
  then have "c \<in> set (collapse_run False s6)"
    using assms set_strip [of "collapse_blanks s6"] by (auto simp: collapse_blanks_def)
  then have c6: "(c \<in> set s6 \<and> c \<noteq> 0x09) \<or> c = 0x20"
    using set_collapse_run [of c False s6] by (auto simp: is_blank_def)
  have a2: "\<And>x. x \<in> set s2 \<Longrightarrow> category L x \<noteq> ''Mn''"
    by (simp add: s2_def strip_combining_def)
  have a3: "\<And>x. x \<in> set s3 \<Longrightarrow> category L x \<noteq> ''Mn'' \<and> x \<noteq> 0xA0"
    using a2 by (auto simp: s3_def set_replace category_of_ascii)
  have a4: "\<And>x. x \<in> set s4 \<Longrightarrow> category L x \<noteq> ''Mn'' \<and> x \<noteq> 0xA0 \<and> \<not> is_arabic_indic_digit x"
    using a3 set_translate [of _ s3] latin_digit_facts
    by (fastforce simp: s4_def category_of_ascii)
  have a5: "\<And>x. x \<in> set s5 \<Longrightarrow> category L x \<noteq> ''Mn'' \<and> x \<noteq> 0xA0 \<and> \<not> is_arabic_indic_digit x
              \<and> x \<notin> set BIDI_MARKS"
    using a4 by (simp add: s5_def set_remove_bidi)
  have a6: "\<And>x. x \<in> set s6 \<Longrightarrow> x \<noteq> 0x09 \<Longrightarrow> normal_char L x"
  proof -
    fix x assume x: "x \<in> set s6" and t: "x \<noteq> 0x09"
    from x set_fold_punctuation [of x s5]
    consider "x \<in> set s5" "x \<notin> {0xFF1A, 0x2013, 0x2014, 0x640, 0x28, 0x29, 0x5B, 0x5D}"
      | "x \<in> {0x20, 0x2D, 0x3A}"
      unfolding s6_def by blast
    then show "normal_char L x"
    proof cases
      case 1
      then show ?thesis using a5 [of x] t by (simp add: normal_char_def)
    next
      case 2
      then show ?thesis using normal_char_ascii(1-3) [of L] by auto
    qed
  qed
  show ?thesis using c6 a6 normal_char_ascii(1) by blast
qed

lemma norm_advanced_shape:
  "no_blank_runs (norm_advanced L s)"
  "norm_advanced L s = [] \<or> (\<not> is_space (hd (norm_advanced L s)) \<and> \<not> is_space (last (norm_advanced L s)))"
  by (auto simp: norm_advanced_def Let_def collapse_blanks_def no_blank_runs_strip
      no_blank_runs_collapse_run strip_ends)

lemma norm_advanced_fixed:
  assumes nfkc: "normalize_NFKC L y = y"
    and chars: "\<forall>c\<in>set y. normal_char L c"
    and runs: "no_blank_runs y"
    and ends: "y = [] \<or> (\<not> is_space (hd y) \<and> \<not> is_space (last y))"
  shows "norm_advanced L y = y"
proof (cases "y = []")
  case True
  then show ?thesis by (simp add: norm_advanced_def)
next
  case False
  have s2: "strip_combining L y = y"
    using chars by (simp add: strip_combining_def normal_char_def)
  have s3: "replace 0xA0 [0x20] y = y"
    using chars by (intro replace_absent) (auto simp: normal_char_def)
  have s4: "translate ARABIC_DIGITS y = y"
    using chars by (intro translate_absent) (auto simp: normal_char_def)
  have s5: "fold (\<lambda>ch t. replace ch [] t) BIDI_MARKS y = y"
  proof -
    have "\<forall>m\<in>set BIDI_MARKS. m \<notin> set y" using chars by (auto simp: normal_char_def)
    then show ?thesis by (simp add: BIDI_MARKS_def replace_absent)
  qed
  have s6: "fold_punctuation y = y"
  proof -
    have "\<forall>m\<in>{0xFF1A, 0x2013, 0x2014, 0x640, 0x28, 0x29, 0x5B, 0x5D}. m \<notin> set y"
      using chars unfolding normal_char_def by blast
    then show ?thesis by (simp add: fold_punctuation_def replace_absent)
  qed
  have s7: "collapse_blanks y = y"
    unfolding collapse_blanks_def using chars runs
    by (intro collapse_run_id) (auto simp: normal_char_def)
  have s8: "strip y = y" using ends by (rule strip_id)
  show ?thesis
    using False by (simp add: norm_advanced_def Let_def nfkc s2 s3 s4 s5 s6 s7 s8)
qed

lemma norm_advanced_unfold:
  "norm_advanced L s =
     (if s = [] then []
      else strip (collapse_blanks (fold_punctuation (fold (\<lambda>ch t. replace ch [] t) BIDI_MARKS
             (translate ARABIC_DIGITS (replace 0xA0 [0x20]
                (strip_combining L (normalize_NFKC L s))))))))"
  by (simp add: norm_advanced_def Let_def)

lemmas norm_eval =
  norm_advanced_unfold library_excerpt_def strip_combining_def category_def category_ascii_def
  category_excerpt_def replace_def translate_def ARABIC_DIGITS_def ascii_def BIDI_MARKS_def
  fold_punctuation_def strip_def collapse_blanks_def is_blank_def is_space_def

text \<open>
  C3 (as amended). The output of \<open>norm_advanced\<close> contains no Arabic-Indic and no Extended
  Arabic-Indic digit, no character of category Mn and none of the seven directional
  marks; no two neighbouring characters of it are both a space or a tab; it neither
  starts nor ends with whitespace. Digits of other scripts are not promised to be gone.
\<close>

theorem norm_advanced_invariant:
  "(\<forall>c\<in>set (norm_advanced L s).
       \<not> is_arabic_indic_digit c \<and> category L c \<noteq> ''Mn'' \<and> c \<notin> set BIDI_MARKS)
   \<and> no_blank_runs (norm_advanced L s)
   \<and> (norm_advanced L s = []
       \<or> (\<not> is_space (hd (norm_advanced L s)) \<and> \<not> is_space (last (norm_advanced L s))))"
  using norm_advanced_chars [of _ L s] norm_advanced_shape [of L s]
  by (auto simp: normal_char_def)

theorem norm_advanced_invariant_witness:
  "norm_advanced library_excerpt
     (ascii '' PO  NUM:'' @ [0x09, 0x200F, 0x661, 0x64B, 0x662, 0x6F3, 0x664, 0x20, 0x0A])
     = ascii ''PO NUM: 1234''
   \<and> list_all (\<lambda>c. \<not> is_arabic_indic_digit c \<and> category library_excerpt c \<noteq> ''Mn''
                   \<and> c \<notin> set BIDI_MARKS) (ascii ''PO NUM: 1234'')
   \<and> no_blank_runs (ascii ''PO NUM: 1234'')
   \<and> \<not> is_space (hd (ascii ''PO NUM: 1234'')) \<and> \<not> is_space (last (ascii ''PO NUM: 1234''))"
proof -
  have e: "norm_advanced library_excerpt
     (ascii '' PO  NUM:'' @ [0x09, 0x200F, 0x661, 0x64B, 0x662, 0x6F3, 0x664, 0x20, 0x0A])
     = ascii ''PO NUM: 1234''"
    by (simp add: norm_eval)
  show ?thesis
    using norm_advanced_invariant [of library_excerpt
        "ascii '' PO  NUM:'' @ [0x09, 0x200F, 0x661, 0x64B, 0x662, 0x6F3, 0x664, 0x20, 0x0A]"]
    unfolding e by (simp add: ascii_def list_all_iff)
qed

text \<open>
  C3 as stated fails: the Devanagari digit one (U+0967) is a decimal digit that is not a
  Latin digit, and normalization leaves it in the text.
\<close>

theorem norm_advanced_keeps_devanagari_digit:
  "norm_advanced library_excerpt [0x967] = [0x967]
   \<and> \<not> only_latin_digits library_excerpt (norm_advanced library_excerpt [0x967])"
  by (simp add: norm_eval only_latin_digits_def is_decimal_def is_latin_digit_def)

text \<open>
  C4 (as amended). \<open>norm_advanced\<close> is idempotent on every input whose normalized text
  NFKC leaves unchanged.
\<close>

theorem norm_advanced_idempotent_when_NFKC_stable:
  "normalize_NFKC L (norm_advanced L x) = norm_advanced L x
     \<Longrightarrow> norm_advanced L (norm_advanced L x) = norm_advanced L x"
  using norm_advanced_chars [of _ L x] norm_advanced_shape [of L x]
  by (intro norm_advanced_fixed) auto

theorem norm_advanced_idempotent_witness:
  "normalize_NFKC library_excerpt (norm_advanced library_excerpt (ascii '' PO  NUM: 7906 ''))
     = norm_advanced library_excerpt (ascii '' PO  NUM: 7906 '')
   \<and> norm_advanced library_excerpt (norm_advanced library_excerpt (ascii '' PO  NUM: 7906 ''))
     = norm_advanced library_excerpt (ascii '' PO  NUM: 7906 '')"
proof -
  have e: "norm_advanced library_excerpt (ascii '' PO  NUM: 7906 '') = ascii ''PO NUM: 7906''"
    by (simp add: norm_eval)
  have n: "normalize_NFKC library_excerpt (norm_advanced library_excerpt (ascii '' PO  NUM: 7906 ''))
     = norm_advanced library_excerpt (ascii '' PO  NUM: 7906 '')"
    unfolding e by (simp add: library_excerpt_def ascii_def)
  show ?thesis
    using n norm_advanced_idempotent_when_NFKC_stable [OF n] by simp
qed

text \<open>
  C4 as stated fails: once the left-to-right mark between two Hangul jamo is removed, a
  second normalization composes them into one syllable.
\<close>

theorem norm_advanced_not_idempotent:
  "norm_advanced library_excerpt [0x1100, 0x200E, 0x1161] = [0x1100, 0x1161]
   \<and> norm_advanced library_excerpt (norm_advanced library_excerpt [0x1100, 0x200E, 0x1161])
       = [0xAC00]"
  by (simp add: norm_eval)

subsection \<open>The matcher\<close>

lemma run_preserves_group:
  "n \<notin> set (group_numbers r) \<Longrightarrow> (p', cs', g') \<in> set (run L ic r (p, cs, g)) \<Longrightarrow> g' n = g n"
proof (induction r arbitrary: p cs g p' cs' g')
  case (Seq r1 r2)
  from Seq.prems(2) obtain p1 cs1 g1 where
    a: "(p1, cs1, g1) \<in> set (run L ic r1 (p, cs, g))" and
    b: "(p', cs', g') \<in> set (run L ic r2 (p1, cs1, g1))"
    by auto
  have "g1 n = g n" using Seq.IH(1) [OF _ a] Seq.prems(1) by simp
  moreover have "g' n = g1 n" using Seq.IH(2) [OF _ b] Seq.prems(1) by simp
  ultimately show ?case by simp
next
  case (Alt r1 r2)
  then show ?case by auto
next
  case (Opt r)
  then show ?case by auto
next
  case (Group m r)
  then show ?case by (auto split: prod.splits)
next
  case (Rep a lo hi greedy)
  then show ?case by (auto split: prod.splits)
qed (auto split: list.splits if_splits)

lemma advance_drop: "n \<le> length cs \<Longrightarrow> snd (advance n p cs) = drop n cs"
  by (induction n p cs rule: advance.induct) auto

lemma set_rep_counts:
  "n \<in> set (rep_counts lo hi greedy avail) \<longleftrightarrow>
     lo \<le> n \<and> n \<le> avail \<and> (case hi of None \<Rightarrow> True | Some h \<Rightarrow> n \<le> h)"
  by (auto simp: rep_counts_def Let_def split: option.splits)

lemma run_Rep_result:
  assumes "(p', cs', g') \<in> set (run L ic (Rep a lo hi greedy) (p, cs, g))"
  shows "g' = g \<and> (\<exists>n. lo \<le> n \<and> (case hi of None \<Rightarrow> True | Some h \<Rightarrow> n \<le> h)
            \<and> n \<le> length (takeWhile (atom_matches L ic a) cs)
            \<and> cs' = drop n cs \<and> n \<le> length cs)"
proof -
  from assms obtain n where
    n: "n \<in> set (rep_counts lo hi greedy (length (takeWhile (atom_matches L ic a) cs)))"
    and e: "(p', cs', g') = (case advance n p cs of (p', cs') \<Rightarrow> (p', cs', g))"
    by auto
  have le: "n \<le> length cs"
    using n length_takeWhile_le [of "atom_matches L ic a" cs] by (simp add: set_rep_counts)
  have "cs' = drop n cs" "g' = g"
    using e advance_drop [OF le, of p] by (auto split: prod.splits)
  then show ?thesis using n le by (auto simp: set_rep_counts)
qed

lemma takeWhile_prefix_all:
  "n \<le> length (takeWhile P cs) \<Longrightarrow> list_all P (take n cs)"
proof (induction cs arbitrary: n)
  case Nil
  then show ?case by simp
next
  case (Cons c cs)
  then show ?case by (cases n) (auto split: if_splits)
qed

lemma run_Group_result:
  assumes "(p', cs', g') \<in> set (run L ic (Group n r) (p, cs, g))"
  shows "\<exists>g1. (p', cs', g1) \<in> set (run L ic r (p, cs, g))
           \<and> g' = g1(n \<mapsto> take (length cs - length cs') cs)"
proof -
  from assms obtain st where
    st: "st \<in> set (run L ic r (p, cs, g))" and
    e: "(p', cs', g') = (case st of (p1, cs1, g1) \<Rightarrow>
          (p1, cs1, g1(n \<mapsto> take (length cs - length cs1) cs)))"
    by auto
  obtain p1 cs1 g1 where s: "st = (p1, cs1, g1)" by (cases st) auto
  show ?thesis using st e unfolding s by auto
qed

lemma search_from_head:
  assumes "run L ic r (p, cs, Map.empty) = st # sts"
    and "(case st # sts of [] \<Rightarrow> x | (_, _, g) # _ \<Rightarrow> Some g) = Some m"
  shows "\<exists>p' cs'. (p', cs', m) \<in> set (run L ic r (p, cs, Map.empty))"
proof -
  obtain p1 cs1 g1 where s: "st = (p1, cs1, g1)" by (cases st) auto
  have "g1 = m" using assms(2) unfolding s by simp
  then have "(p1, cs1, m) \<in> set (run L ic r (p, cs, Map.empty))"
    using assms(1) unfolding s by simp
  then show ?thesis by blast
qed

lemma run_captures_po:
  "captures_po r \<Longrightarrow> (p', cs', g') \<in> set (run L ic r (p, cs, g))
     \<Longrightarrow> \<exists>d. g' 1 = Some d \<and> is_po_capture L d"
proof (induction r arbitrary: p cs g p' cs' g' rule: captures_po.induct)
  case (1 n lo hi greedy)
  from run_Group_result [OF "1.prems"(2)] obtain g1 where
    r: "(p', cs', g1) \<in> set (run L ic (Rep Digit lo (Some hi) greedy) (p, cs, g))"
    and g': "g' = g1(n \<mapsto> take (length cs - length cs') cs)"
    by blast
  from run_Rep_result [OF r] obtain k where
    k: "lo \<le> k" "k \<le> hi" "k \<le> length (takeWhile (atom_matches L ic Digit) cs)"
       "cs' = drop k cs" "k \<le> length cs"
    by auto
  have t: "take (length cs - length cs') cs = take k cs" using k by simp
  have "list_all (atom_matches L ic Digit) (take k cs)" using k(3) by (rule takeWhile_prefix_all)
  then have "is_po_capture L (take k cs)"
    using k "1.prems"(1) by (auto simp: is_po_capture_def list_all_iff)
  then show ?case using g' t "1.prems"(1) by simp
next
  case (2 r1 r2)
  from "2.prems"(2) obtain p1 cs1 g1 where
    a: "(p1, cs1, g1) \<in> set (run L ic r1 (p, cs, g))" and
    b: "(p', cs', g') \<in> set (run L ic r2 (p1, cs1, g1))"
    by auto
  show ?case
  proof (cases "captures_po r2")
    case True
    then show ?thesis using "2.IH"(1) b by blast
  next
    case False
    then have c1: "captures_po r1" and n2: "1 \<notin> set (group_numbers r2)"
      using "2.prems"(1) by auto
    have "g' 1 = g1 1" using run_preserves_group [OF n2 b] .
    moreover have "\<exists>d. g1 1 = Some d \<and> is_po_capture L d" using "2.IH" c1 a by blast
    ultimately show ?thesis by simp
  qed
next
  case (3 r1 r2)
  then show ?case by auto
qed auto

lemma search_from_result:
  "search_from L ic r p cs = Some m
     \<Longrightarrow> \<exists>p0 cs0 p' cs'. (p', cs', m) \<in> set (run L ic r (p0, cs0, Map.empty))"
proof (induction cs arbitrary: p)
  case Nil
  show ?case
  proof (cases "run L ic r (p, [], Map.empty)")
    case Nil
    then show ?thesis using Nil.prems by simp
  next
    case (Cons st sts)
    then show ?thesis using search_from_head [OF Cons] Nil.prems by fastforce
  qed
next
  case (Cons c cs)
  show ?case
  proof (cases "run L ic r (p, c # cs, Map.empty)")
    case Nil
    then show ?thesis using Cons by simp
  next
    case (Cons st sts)
    then show ?thesis using search_from_head [OF Cons] Cons.prems by fastforce
  qed
qed

lemma search_captures_po:
  "captures_po (regex pat) \<Longrightarrow> search L pat t = Some m \<Longrightarrow> \<exists>d. m 1 = Some d \<and> is_po_capture L d"
  unfolding search_def using search_from_result run_captures_po by blast

lemmas pattern_defs =
  RX_ARABIC_MEALS_NUM_def RX_PO_NUM_COLON_def RX_PO_FORWARD_SLASH_def RX_NUM_CONCAT_DATE_def
  RX_NUM_DATE_def RX_STANDALONE_6DIGIT_def RX_PO_SLASH_def RX_TAXPAYER_NAME_NUM_def
  RX_PARENTHESES_NUM_END_def RX_PARENTHESES_NUM_def RX_PO_PREFIX_def RX_CODE_ANCHOR_LINE_def
  RX_ARABIC_D_PREFIX_def RX_ARABIC_D_SUFFIX_def

lemmas regex_defs = seq_def lit_def star_def plus_def lazy_star_def digits_def date_tail_def

lemma patterns_capture_po: "(name, pat) \<in> set patterns \<Longrightarrow> captures_po (regex pat)"
  by (auto simp: patterns_def pattern_defs regex_defs ascii_def)

subsection \<open>Evaluating the matcher on a given text\<close>

lemma advance_closed:
  "advance n p cs =
     (if n = 0 \<or> cs = [] then p else Some (cs ! (min n (length cs) - 1)), drop n cs)"
proof (induction n p cs rule: advance.induct)
  case (3 n p c cs)
  then show ?case by (cases n) (auto simp: min_def)
qed auto

lemma rep_counts_unfold:
  "rep_counts lo hi greedy avail =
     (if greedy then rev [lo ..< Suc (case hi of None \<Rightarrow> avail | Some h \<Rightarrow> min h avail)]
      else [lo ..< Suc (case hi of None \<Rightarrow> avail | Some h \<Rightarrow> min h avail)])"
  by (simp add: rep_counts_def Let_def)

lemmas match_eval =
  search_def advance_closed rep_counts_unfold chr_eq_def lower_ascii_def is_decimal_def
  is_word_def at_boundary_def at_end_def is_space_def category_def category_ascii_def
  category_excerpt_def library_excerpt_def ascii_def

lemmas extract_eval =
  advanced_po_extraction_v48_def patterns_def no_po_found_def source_label_def

subsection \<open>The extraction loop\<close>

lemma source_label_inject [simp]: "source_label a = source_label b \<longleftrightarrow> a = b"
  by (simp add: source_label_def)

lemma source_label_not_empty [simp]: "source_label a \<noteq> []" "[] \<noteq> source_label a"
  by (simp_all add: source_label_def ascii_def)

lemma source_label_ascii: "ascii (''json ('' @ n @ '')'') = source_label (ascii n)"
  by (simp add: source_label_def ascii_def)

lemma first_match_shapes:
  assumes "\<forall>(n, p)\<in>set ps. captures_po (regex p)"
  shows "(first_match L ps t = no_po_found \<and> (\<forall>(n, p)\<in>set ps. search L p t = None))
    \<or> (\<exists>before name pat after m d.
          ps = before @ (name, pat) # after
          \<and> (\<forall>(n, p)\<in>set before. search L p t = None)
          \<and> search L pat t = Some m \<and> m 1 = Some d \<and> is_po_capture L d
          \<and> first_match L ps t = (Some d, source_label name, []))"
  using assms
proof (induction ps)
  case Nil
  show ?case by simp
next
  case (Cons np ps)
  obtain name pat where np: "np = (name, pat)" by (cases np) auto
  show ?case
  proof (cases "search L pat t")
    case None
    from Cons.IH Cons.prems consider
      (none) "first_match L ps t = no_po_found" "\<forall>(n, p)\<in>set ps. search L p t = None"
      | (found) before name' pat' after m d where
          "ps = before @ (name', pat') # after" "\<forall>(n, p)\<in>set before. search L p t = None"
          "search L pat' t = Some m" "m 1 = Some d" "is_po_capture L d"
          "first_match L ps t = (Some d, source_label name', [])"
      by auto
    then show ?thesis
    proof cases
      case none
      then show ?thesis using None np by simp
    next
      case found
      have "np # ps = (np # before) @ (name', pat') # after" using found(1) by simp
      moreover have "\<forall>(n, p)\<in>set (np # before). search L p t = None"
        using found(2) None np by simp
      moreover have "first_match L (np # ps) t = (Some d, source_label name', [])"
        using found(6) None np by simp
      ultimately show ?thesis using found(3-5) by blast
    qed
  next
    case (Some m)
    have "captures_po (regex pat)" using Cons.prems np by simp
    from search_captures_po [OF this Some] obtain d where
      d: "m 1 = Some d" "is_po_capture L d" by blast
    have "np # ps = [] @ (name, pat) # ps" using np by simp
    moreover have "first_match L (np # ps) t = (Some d, source_label name, [])"
      using Some d np by simp
    ultimately show ?thesis using Some d by fastforce
  qed
qed

lemma first_match_source:
  "fst (snd (first_match L ps t)) = source_label n
     \<Longrightarrow> \<exists>p. (n, p) \<in> set ps \<and> search L p t \<noteq> None"
proof (induction ps)
  case Nil
  then show ?case by (simp add: no_po_found_def)
next
  case (Cons np ps)
  obtain name pat where np: "np = (name, pat)" by (cases np) auto
  show ?case
  proof (cases "search L pat t")
    case None
    then have "fst (snd (first_match L ps t)) = source_label n" using Cons.prems np by simp
    from Cons.IH [OF this] show ?thesis by auto
  next
    case (Some m)
    then have "name = n" using Cons.prems np by simp
    then show ?thesis using Some np by auto
  qed
qed

lemma first_match_source_first:
  "fst (snd (first_match L (before @ (n, p) # after) t)) = source_label n
     \<Longrightarrow> n \<notin> fst ` set before \<Longrightarrow> n \<notin> fst ` set after
     \<Longrightarrow> (\<forall>(n', p')\<in>set before. search L p' t = None) \<and> search L p t \<noteq> None"
proof (induction before)
  case Nil
  show ?case
  proof (cases "search L p t")
    case None
    then have "fst (snd (first_match L after t)) = source_label n" using Nil.prems(1) by simp
    from first_match_source [OF this] Nil.prems(3) show ?thesis by force
  next
    case (Some m)
    then show ?thesis by simp
  qed
next
  case (Cons np before)
  obtain name pat where np: "np = (name, pat)" by (cases np) auto
  have ne: "name \<noteq> n" using Cons.prems(2) np by auto
  show ?case
  proof (cases "search L pat t")
    case None
    then have "fst (snd (first_match L (before @ (n, p) # after) t)) = source_label n"
      using Cons.prems(1) np by simp
    from Cons.IH [OF this] Cons.prems(2,3) None np show ?thesis by simp
  next
    case (Some m)
    then show ?thesis using Cons.prems(1) np ne by simp
  qed
qed

lemma run_Chr_absent:
  "\<forall>c\<in>set cs. \<not> chr_eq ic a c \<Longrightarrow> run L ic (Seq (Atom (Chr a)) r) (p, cs, g) = []"
  by (cases cs) auto

lemma search_from_Chr_absent:
  "\<forall>c\<in>set cs. \<not> chr_eq ic a c \<Longrightarrow> search_from L ic (Seq (Atom (Chr a)) r) p cs = None"
proof (induction cs arbitrary: p)
  case Nil
  show ?case by simp
next
  case (Cons c cs)
  have "run L ic (Seq (Atom (Chr a)) r) (p, c # cs, Map.empty) = []"
    using Cons.prems by (rule run_Chr_absent)
  then show ?case using Cons by simp
qed

lemma norm_advanced_no_parenthesis: "0x28 \<notin> set (norm_advanced L text)"
  using norm_advanced_chars [of "0x28" L "text"] by (auto simp: normal_char_def)

lemma parentheses_never_match:
  "search L RX_PARENTHESES_NUM_END (norm_advanced L text) = None"
  "search L RX_PARENTHESES_NUM (norm_advanced L text) = None"
proof -
  have a: "\<forall>c\<in>set (norm_advanced L text). \<not> chr_eq False 0x28 c"
    using norm_advanced_no_parenthesis [of L "text"] by (auto simp: chr_eq_def)
  show "search L RX_PARENTHESES_NUM_END (norm_advanced L text) = None"
    using search_from_Chr_absent [OF a]
    by (simp add: search_def RX_PARENTHESES_NUM_END_def seq_def)
  show "search L RX_PARENTHESES_NUM (norm_advanced L text) = None"
    using search_from_Chr_absent [OF a]
    by (simp add: search_def RX_PARENTHESES_NUM_def seq_def)
qed

lemma run_cong_search_from:
  assumes "\<And>st. run L ic r st = run L ic r' st"
  shows "search_from L ic r p cs = search_from L ic r' p cs"
proof (induction cs arbitrary: p)
  case Nil
  show ?case by (simp add: assms)
next
  case (Cons c cs)
  show ?case by (simp add: assms Cons.IH split: list.splits)
qed

lemma run_Seq_cong:
  "(\<And>st. run L ic r1 st = run L ic r1' st) \<Longrightarrow> (\<And>st. run L ic r2 st = run L ic r2' st)
     \<Longrightarrow> run L ic (Seq r1 r2) st = run L ic (Seq r1' r2') st"
proof -
  assume a: "\<And>st. run L ic r1 st = run L ic r1' st" and b: "\<And>st. run L ic r2 st = run L ic r2' st"
  have "run L ic r2 = run L ic r2'" using b by (rule ext)
  then show ?thesis using a by simp
qed

lemma run_Atom_cong:
  "(\<And>c. atom_matches L ic a c = atom_matches L ic a' c)
     \<Longrightarrow> run L ic (Atom a) st = run L ic (Atom a') st"
  by (cases st) (auto split: list.splits)

lemma lit_PO_same: "run L True (lit (ascii ''PO'')) st = run L True (lit (ascii ''po'')) st"
proof -
  have p: "\<And>st. run L True (Atom (Chr 0x50)) st = run L True (Atom (Chr 0x70)) st"
    by (rule run_Atom_cong) (simp add: chr_eq_def lower_ascii_def)
  have o: "\<And>st. run L True (Atom (Chr 0x4F)) st = run L True (Atom (Chr 0x6F)) st"
    by (rule run_Atom_cong) (simp add: chr_eq_def lower_ascii_def)
  have e: "run L True (Seq (Atom (Chr 0x50)) (Seq (Atom (Chr 0x4F)) Empty)) st
      = run L True (Seq (Atom (Chr 0x70)) (Seq (Atom (Chr 0x6F)) Empty)) st"
    by (intro run_Seq_cong p o refl)
  have "lit (ascii ''PO'') = Seq (Atom (Chr 0x50)) (Seq (Atom (Chr 0x4F)) Empty)"
       "lit (ascii ''po'') = Seq (Atom (Chr 0x70)) (Seq (Atom (Chr 0x6F)) Empty)"
    by (simp_all add: lit_def seq_def ascii_def)
  then show ?thesis using e by (simp only:)
qed

lemma po_slash_same_search: "search L RX_PO_SLASH t = search L RX_PO_FORWARD_SLASH t"
proof -
  define tail where
    "tail = seq [star Space, Atom (Chr 0x2F), star Space, Group 1 (digits 4 6), WordBoundary]"
  have a: "regex RX_PO_SLASH = Seq WordBoundary (Seq (lit (ascii ''PO'')) tail)"
    and b: "regex RX_PO_FORWARD_SLASH = Seq WordBoundary (Seq (lit (ascii ''po'')) tail)"
    by (simp_all add: RX_PO_SLASH_def RX_PO_FORWARD_SLASH_def seq_def tail_def)
  have "\<And>st. run L True (regex RX_PO_SLASH) st = run L True (regex RX_PO_FORWARD_SLASH) st"
    unfolding a b by (intro run_Seq_cong lit_PO_same refl)
  then have "search_from L True (regex RX_PO_SLASH) None t
      = search_from L True (regex RX_PO_FORWARD_SLASH) None t"
    by (rule run_cong_search_from)
  moreover have "ignorecase RX_PO_SLASH = True" "ignorecase RX_PO_FORWARD_SLASH = True"
    by (simp_all add: RX_PO_SLASH_def RX_PO_FORWARD_SLASH_def)
  ultimately show ?thesis by (simp only: search_def)
qed

lemma pattern_of_name:
  "(ascii ''parentheses'', p) \<in> set patterns \<Longrightarrow> p = RX_PARENTHESES_NUM"
  "(ascii ''parentheses-end'', p) \<in> set patterns \<Longrightarrow> p = RX_PARENTHESES_NUM_END"
  by (auto simp: patterns_def ascii_def)

lemma patterns_split_po_slash:
  "\<exists>after. patterns =
     [(ascii ''arabic-meals'', RX_ARABIC_MEALS_NUM), (ascii ''po-num-colon'', RX_PO_NUM_COLON),
      (ascii ''po-forward-slash'', RX_PO_FORWARD_SLASH),
      (ascii ''num-concat-date'', RX_NUM_CONCAT_DATE), (ascii ''num-date'', RX_NUM_DATE),
      (ascii ''standalone-6digit'', RX_STANDALONE_6DIGIT)]
     @ (ascii ''po-slash'', RX_PO_SLASH) # after
     \<and> ascii ''po-slash'' \<notin> fst ` set after"
  by (simp add: patterns_def ascii_def)


text \<open>
  C1 (as amended). For every input, \<open>advanced_po_extraction_v48\<close> returns one of two
  shapes. Either \<open>("", "", "no PO found")\<close>, when the input is empty or no rule matches
  the normalized text. Or \<open>(d, "json (" + name + ")", "")\<close>, where \<open>name\<close> is the first
  rule of the 14-rule list whose pattern matches the normalized text and \<open>d\<close> is that
  rule's group 1: four to six characters that \<open>\d\<close> matches, that is decimal digits of
  any script, not only ASCII digits.
\<close>

theorem advanced_po_extraction_v48_shapes:
  "(advanced_po_extraction_v48 L text = (Some [], [], ascii ''no PO found'')
      \<and> (text = [] \<or> (\<forall>(n, p)\<in>set patterns. search L p (norm_advanced L text) = None)))
   \<or> (\<exists>before name pat after m d.
         text \<noteq> [] \<and> patterns = before @ (name, pat) # after
         \<and> (\<forall>(n, p)\<in>set before. search L p (norm_advanced L text) = None)
         \<and> search L pat (norm_advanced L text) = Some m \<and> m 1 = Some d \<and> is_po_capture L d
         \<and> advanced_po_extraction_v48 L text = (Some d, ascii ''json ('' @ name @ ascii '')'', []))"
proof (cases "text = []")
  case True
  then show ?thesis by (simp add: advanced_po_extraction_v48_def no_po_found_def)
next
  case False
  have "\<forall>(n, p)\<in>set patterns. captures_po (regex p)"
    using patterns_capture_po by blast
  from first_match_shapes [OF this, of L "norm_advanced L text"] show ?thesis
    using False
    by (simp add: advanced_po_extraction_v48_def no_po_found_def source_label_def)
qed

theorem advanced_po_extraction_v48_shapes_witness:
  "advanced_po_extraction_v48 library_excerpt (ascii ''PO NUM: 7906 and 173128'')
     = (Some (ascii ''7906''), ascii ''json (po-num-colon)'', [])
   \<and> is_po_capture library_excerpt (ascii ''7906'')
   \<and> advanced_po_extraction_v48 library_excerpt (ascii ''Regular text'')
     = (Some [], [], ascii ''no PO found'')"
proof -
  have a: "advanced_po_extraction_v48 library_excerpt (ascii ''PO NUM: 7906 and 173128'')
     = (Some (ascii ''7906''), ascii ''json (po-num-colon)'', [])"
    by (simp add: extract_eval norm_eval match_eval pattern_defs regex_defs)
  have b: "advanced_po_extraction_v48 library_excerpt (ascii ''Regular text'')
     = (Some [], [], ascii ''no PO found'')"
    by (simp add: extract_eval norm_eval match_eval pattern_defs regex_defs)
  have c: "is_po_capture library_excerpt (ascii ''7906'')"
    by (simp add: is_po_capture_def match_eval)
  show ?thesis
    using a b c advanced_po_extraction_v48_shapes [of library_excerpt "ascii ''PO NUM: 7906 and 173128''"]
    by blast
qed

text \<open>
  C1 as stated fails where it says ASCII digits: \<open>\d\<close> matches the Devanagari digits
  U+0967 to U+096A, normalization keeps them, and the extractor returns them.
\<close>

theorem advanced_po_extraction_v48_devanagari:
  "advanced_po_extraction_v48 library_excerpt (ascii ''PO NUM: '' @ [0x967, 0x968, 0x969, 0x96A])
     = (Some [0x967, 0x968, 0x969, 0x96A], ascii ''json (po-num-colon)'', [])
   \<and> \<not> list_all is_latin_digit [0x967, 0x968, 0x969, 0x96A]"
  by (simp add: extract_eval norm_eval match_eval pattern_defs regex_defs is_latin_digit_def)




text \<open>
  C8. No input makes \<open>advanced_po_extraction_v48\<close> return the source
  \<open>json (parentheses-end)\<close> or \<open>json (parentheses)\<close>: the normalized text has no \<open>(\<close>, so
  rules 9 and 10 never match it.
\<close>

theorem parentheses_rules_unreachable:
  "search L RX_PARENTHESES_NUM_END (norm_advanced L text) = None
   \<and> search L RX_PARENTHESES_NUM (norm_advanced L text) = None
   \<and> fst (snd (advanced_po_extraction_v48 L text)) \<noteq> ascii ''json (parentheses-end)''
   \<and> fst (snd (advanced_po_extraction_v48 L text)) \<noteq> ascii ''json (parentheses)''"
proof -
  let ?t = "norm_advanced L text"
  have a: "fst (snd (first_match L patterns ?t)) \<noteq> source_label (ascii ''parentheses-end'')"
  proof
    assume "fst (snd (first_match L patterns ?t)) = source_label (ascii ''parentheses-end'')"
    from first_match_source [OF this] obtain p where
      p: "(ascii ''parentheses-end'', p) \<in> set patterns" "search L p ?t \<noteq> None"
      by blast
    have "p = RX_PARENTHESES_NUM_END" using p(1) by (rule pattern_of_name(2))
    then show False using p(2) parentheses_never_match(1) [of L "text"] by simp
  qed
  have b: "fst (snd (first_match L patterns ?t)) \<noteq> source_label (ascii ''parentheses'')"
  proof
    assume "fst (snd (first_match L patterns ?t)) = source_label (ascii ''parentheses'')"
    from first_match_source [OF this] obtain p where
      p: "(ascii ''parentheses'', p) \<in> set patterns" "search L p ?t \<noteq> None"
      by blast
    have "p = RX_PARENTHESES_NUM" using p(1) by (rule pattern_of_name(1))
    then show False using p(2) parentheses_never_match(2) [of L "text"] by simp
  qed
  have "fst (snd (advanced_po_extraction_v48 L text)) \<noteq> source_label (ascii ''parentheses-end'')"
       "fst (snd (advanced_po_extraction_v48 L text)) \<noteq> source_label (ascii ''parentheses'')"
    using a b by (auto simp: advanced_po_extraction_v48_def no_po_found_def)
  then show ?thesis
    using parentheses_never_match [of L "text"]
      source_label_ascii [of "''parentheses-end''"] source_label_ascii [of "''parentheses''"]
    by simp
qed

text \<open>
  C9. No input makes \<open>advanced_po_extraction_v48\<close> return the source \<open>json (po-slash)\<close>:
  under \<open>re.IGNORECASE\<close> \<open>RX_PO_SLASH\<close> finds exactly what \<open>RX_PO_FORWARD_SLASH\<close> finds,
  and that rule is tried first.
\<close>

theorem po_slash_rule_unreachable:
  "search L RX_PO_SLASH t = search L RX_PO_FORWARD_SLASH t
   \<and> fst (snd (advanced_po_extraction_v48 L text)) \<noteq> ascii ''json (po-slash)''"
proof -
  let ?t = "norm_advanced L text"
  let ?before = "[(ascii ''arabic-meals'', RX_ARABIC_MEALS_NUM),
      (ascii ''po-num-colon'', RX_PO_NUM_COLON),
      (ascii ''po-forward-slash'', RX_PO_FORWARD_SLASH),
      (ascii ''num-concat-date'', RX_NUM_CONCAT_DATE), (ascii ''num-date'', RX_NUM_DATE),
      (ascii ''standalone-6digit'', RX_STANDALONE_6DIGIT)]"
  from patterns_split_po_slash obtain after where
    pats: "patterns = ?before @ (ascii ''po-slash'', RX_PO_SLASH) # after"
    and fresh: "ascii ''po-slash'' \<notin> fst ` set after"
    by blast
  have early: "ascii ''po-slash'' \<notin> fst ` set ?before" by (simp add: ascii_def)
  have "fst (snd (first_match L patterns ?t)) \<noteq> source_label (ascii ''po-slash'')"
  proof
    assume "fst (snd (first_match L patterns ?t)) = source_label (ascii ''po-slash'')"
    then have "fst (snd (first_match L (?before @ (ascii ''po-slash'', RX_PO_SLASH) # after) ?t))
        = source_label (ascii ''po-slash'')"
      unfolding pats .
    from first_match_source_first [OF this early fresh]
    have "search L RX_PO_FORWARD_SLASH ?t = None" "search L RX_PO_SLASH ?t \<noteq> None"
      by simp_all
    then show False using po_slash_same_search [of L ?t] by simp
  qed
  then have "fst (snd (advanced_po_extraction_v48 L text)) \<noteq> source_label (ascii ''po-slash'')"
    by (auto simp: advanced_po_extraction_v48_def no_po_found_def)
  then show ?thesis
    using po_slash_same_search [of L t] source_label_ascii [of "''po-slash''"] by simp
qed

end
